theory Spec2Isabelle
  imports Main "HOL-Library.Word"
begin

unbundle bit_operations_syntax

text \<open>
  A model of the inotify-based FileWatcher JNI library: \<open>src/real/real_filewatcher.c\<close>
  (the native methods \<open>watch\<close>, \<open>unwatch\<close>, \<open>nextEvent\<close>, \<open>close\<close>, \<open>destroy\<close> and
  \<open>create_event_object\<close>) and \<open>is_debug_enabled\<close> of \<open>src/common/jni_helpers.c\<close>.
  The kernel and the JVM are the environment: the kernel is a part of the state, the
  outcome of the JNI allocations is an argument of each call.  The calls of one
  process are taken one after the other.
\<close>

section \<open>Platform: bytes, C int, the inotify ABI\<close>

text \<open>
  Bytes of C memory are \<^typ>\<open>char\<close> (8 bits), C strings are byte lists without the
  terminating NUL.  A C \<open>int\<close> is an \<^typ>\<open>int\<close> kept in the signed 32-bit range;
  \<open>int32\<close> is the conversion that an assignment to \<open>int\<close> performs.
\<close>

type_synonym byte = char
type_synonym uint32 = "32 word"

definition NUL :: byte where
  "NUL = CHR 0x00"

definition int32 :: "int \<Rightarrow> int" where
  "int32 x = (x + 2 ^ 31) mod 2 ^ 32 - 2 ^ 31"

text \<open>
  The event bits of \<open><sys/inotify.h>\<close> (Linux).  The header is a system header, not part
  of the repository; the values are those of the Linux ABI.
\<close>

definition IN_MODIFY :: uint32 where "IN_MODIFY = 0x00000002"
definition IN_MOVED_FROM :: uint32 where "IN_MOVED_FROM = 0x00000040"
definition IN_MOVED_TO :: uint32 where "IN_MOVED_TO = 0x00000080"
definition IN_CREATE :: uint32 where "IN_CREATE = 0x00000100"
definition IN_DELETE :: uint32 where "IN_DELETE = 0x00000200"
definition IN_Q_OVERFLOW :: uint32 where "IN_Q_OVERFLOW = 0x00004000"
definition IN_IGNORED :: uint32 where "IN_IGNORED = 0x00008000"

text \<open>
  \<open>struct inotify_event { int wd; uint32_t mask; uint32_t cookie; uint32_t len; char name[]; }\<close>:
  four 32-bit fields (16 bytes) followed by \<open>len\<close> bytes of name.  The targets of the
  library (Android on arm, aarch64, x86, x86_64) are little-endian.
\<close>

definition EVENT_SIZE :: nat where
  "EVENT_SIZE = 16"

definition BUF_LEN :: nat where
  "BUF_LEN = 1024 * (EVENT_SIZE + 16)"

definition le32 :: "byte list \<Rightarrow> uint32" where
  "le32 bs = word_of_nat (foldr (\<lambda>b acc. of_char b + 256 * acc) bs 0)"

text \<open>
  A pointer \<open>struct inotify_event *\<close> into memory, read as a value.  The flexible array
  member \<open>name\<close> is only ever used as a C string (by \<open>%s\<close>): it is the bytes from offset
  16 up to the first NUL, and \<open>None\<close> when no NUL follows inside the array (the read
  would leave the array).
\<close>

record inotify_event =
  wd :: uint32
  ev_mask :: uint32
  cookie :: uint32
  len :: uint32
  name :: "byte list option"

definition c_string :: "byte list \<Rightarrow> byte list option" where
  "c_string mem = (if NUL \<in> set mem then Some (takeWhile (\<lambda>b. b \<noteq> NUL) mem) else None)"

definition event_at :: "byte list \<Rightarrow> int \<Rightarrow> inotify_event option" where
  "event_at mem pos =
     (if 0 \<le> pos \<and> nat pos + EVENT_SIZE \<le> length mem then
        Some \<lparr> wd = le32 (take 4 (drop (nat pos) mem)),
               ev_mask = le32 (take 4 (drop (nat pos + 4) mem)),
               cookie = le32 (take 4 (drop (nat pos + 8) mem)),
               len = le32 (take 4 (drop (nat pos + 12) mem)),
               name = c_string (drop (nat pos + EVENT_SIZE) mem) \<rparr>
      else None)"

section \<open>The Java side: JNI calls that can fail, and the objects returned\<close>

text \<open>
  A call returns normally (\<open>Returns\<close>) or has no defined behaviour in C (\<open>Undefined\<close>):
  a read outside \<open>event_buffer\<close> or through a pointer that was freed.
\<close>

datatype 'a outcome = Undefined | Returns 'a

datatype EventKind = CREATED | MODIFIED | DELETED | OVERFLOW

datatype jobject = NULL | Event EventKind "byte list"

text \<open>
  What the JNI functions of one native call do: each of \<open>GetStringUTFChars\<close>,
  \<open>NewStringUTF\<close> and \<open>NewObject\<close> can return \<open>NULL\<close> (out of memory).  The cached
  class and field ids are those a successful \<open>create\<close> left behind.
\<close>

record JNIEnv =
  GetStringUTFChars_ok :: bool
  NewStringUTF_ok :: bool
  NewObject_ok :: bool

section \<open>\<open>create_event_object\<close> (real\_filewatcher.c)\<close>

definition event_kind :: "uint32 \<Rightarrow> EventKind" where
  "event_kind m =
     (if m AND (IN_CREATE OR IN_MOVED_TO) \<noteq> 0 then CREATED
      else if m AND IN_MODIFY \<noteq> 0 then MODIFIED
      else if m AND (IN_DELETE OR IN_MOVED_FROM) \<noteq> 0 then DELETED
      else if m AND IN_Q_OVERFLOW \<noteq> 0 then OVERFLOW
      else MODIFIED)"

text \<open>
  \<open>char full_path[1024]\<close>: \<open>snprintf\<close> writes at most 1023 bytes of
  \<open>base_path "/" name\<close>, \<open>strncpy\<close> at most 1023 bytes of \<open>base_path\<close>.
\<close>

definition full_path :: "inotify_event \<Rightarrow> byte list \<Rightarrow> byte list option" where
  "full_path event base_path =
     (if len event > 0 then
        (case name event of
           None \<Rightarrow> None
         | Some nm \<Rightarrow> Some (take 1023 (base_path @ ''/'' @ nm)))
      else Some (take 1023 base_path))"

definition create_event_object :: "JNIEnv \<Rightarrow> inotify_event \<Rightarrow> byte list \<Rightarrow> jobject outcome" where
  "create_event_object env event base_path =
     (case full_path event base_path of
        None \<Rightarrow> Undefined
      | Some p \<Rightarrow>
          if \<not> NewStringUTF_ok env then Returns NULL
          else if \<not> NewObject_ok env then Returns NULL
          else Returns (Event (event_kind (ev_mask event)) p))"

section \<open>\<open>is_debug_enabled\<close> (jni\_helpers.c)\<close>

text \<open>
  The static \<open>debug_enabled\<close> starts at \<open>-1\<close>.  The first argument is what
  \<open>getenv("FILEWATCHER_DEBUG")\<close> returns at the time of the call; the function returns
  its result and the new value of the static.
\<close>

definition first_char :: "byte list \<Rightarrow> byte" where
  "first_char s = (case s of [] \<Rightarrow> NUL | c # _ \<Rightarrow> c)"

definition is_debug_enabled :: "byte list option \<Rightarrow> int \<Rightarrow> int \<times> int" where
  "is_debug_enabled debug_env debug_enabled =
     (if debug_enabled = -1 then
        (let v = (case debug_env of
                    None \<Rightarrow> 0
                  | Some s \<Rightarrow> if first_char s \<noteq> CHR ''0'' then 1 else 0)
         in (v, v))
      else (debug_enabled, debug_enabled))"

section \<open>The watcher, the kernel and the heap\<close>

text \<open>
  \<open>typedef struct { int inotify_fd; pthread_mutex_t mutex; char event_buffer[BUF_LEN];
  int buffer_pos; int buffer_len; } FileWatcher\<close>.  The mutex has no field here: what is
  done to it is recorded in the trace of the world.
\<close>

record FileWatcher =
  inotify_fd :: int
  event_buffer :: "byte list"
  buffer_pos :: int
  buffer_len :: int

text \<open>What a native call does to the outside, in the order it does it.\<close>

datatype action =
    Sys_inotify_add_watch int "byte list" uint32
  | Sys_read int
  | Sys_close int
  | Mutex_lock nat
  | Mutex_unlock nat
  | Mutex_destroy nat
  | Free nat

text \<open>
  The world of the process: the allocated \<open>FileWatcher\<close> structs by address (the
  \<open>jlong\<close> handle; address 0 is \<open>NULL\<close>), and the kernel's side of inotify: the open
  inotify descriptors, the registrations \<open>(fd, wd, path)\<close>, the next watch descriptor,
  the paths the kernel accepts, and for each descriptor the byte chunks its next
  \<open>read\<close> calls will return.
\<close>

record world =
  heap :: "nat \<Rightarrow> FileWatcher option"
  open_fds :: "int list"
  watches :: "(int \<times> int \<times> byte list) list"
  next_wd :: int
  watchable :: "byte list list"
  pending :: "int \<Rightarrow> byte list list"
  trace :: "action list"

definition emit :: "action \<Rightarrow> world \<Rightarrow> world" where
  "emit a s = s\<lparr>trace := trace s @ [a]\<rparr>"

text \<open>
  A descriptor is never negative.
  \<open>inotify_add_watch(fd, path, mask)\<close>: \<open>-1\<close> on a descriptor that is not open or a path
  the kernel rejects; the existing watch descriptor when the path is registered
  already; a fresh one otherwise.
\<close>

definition sys_inotify_add_watch ::
  "int \<Rightarrow> byte list \<Rightarrow> uint32 \<Rightarrow> world \<Rightarrow> int \<times> world" where
  "sys_inotify_add_watch fd p m s =
     (let s1 = emit (Sys_inotify_add_watch fd p m) s in
      if fd < 0 \<or> fd \<notin> set (open_fds s) \<or> p \<notin> set (watchable s) then (-1, s1)
      else (case find (\<lambda>(f, w, q). f = fd \<and> q = p) (watches s) of
              Some (f, w, q) \<Rightarrow> (w, s1)
            | None \<Rightarrow> (next_wd s,
                s1\<lparr>watches := watches s @ [(fd, next_wd s, p)], next_wd := next_wd s + 1\<rparr>)))"

text \<open>
  \<open>read(fd, buf, count)\<close> on a non-blocking descriptor: \<open>-1\<close> on a descriptor that is
  not open (\<open>EBADF\<close>) or when nothing is pending (\<open>EAGAIN\<close>); otherwise the next chunk,
  at most \<open>count\<close> bytes.
\<close>

definition sys_read :: "int \<Rightarrow> nat \<Rightarrow> world \<Rightarrow> (int \<times> byte list) \<times> world" where
  "sys_read fd count s =
     (let s1 = emit (Sys_read fd) s in
      if fd < 0 \<or> fd \<notin> set (open_fds s) then ((-1, []), s1)
      else (case pending s fd of
              [] \<Rightarrow> ((-1, []), s1)
            | chunk # rest \<Rightarrow>
                ((int (length (take count chunk)), take count chunk),
                 s1\<lparr>pending := (pending s)(fd := rest)\<rparr>)))"

text \<open>\<open>close(fd)\<close>: releases the descriptor with its registrations and pending data.\<close>

definition sys_close :: "int \<Rightarrow> world \<Rightarrow> world" where
  "sys_close fd s =
     (let s1 = emit (Sys_close fd) s in
      if fd < 0 \<or> fd \<notin> set (open_fds s) then s1
      else s1\<lparr>open_fds := removeAll fd (open_fds s),
              watches := filter (\<lambda>(f, w, q). f \<noteq> fd) (watches s),
              pending := (pending s)(fd := [])\<rparr>)"

section \<open>The native methods (real\_filewatcher.c)\<close>

definition Java_com_jetbrains_analyzer_filewatcher_FileWatcher_watch ::
  "JNIEnv \<Rightarrow> nat \<Rightarrow> byte list \<Rightarrow> world \<Rightarrow> (bool \<times> world) outcome" where
  "Java_com_jetbrains_analyzer_filewatcher_FileWatcher_watch env watcherPtr path_str s =
     (if watcherPtr = 0 then Returns (False, s)
      else if \<not> GetStringUTFChars_ok env then Returns (False, s)
      else (case heap s watcherPtr of
              None \<Rightarrow> Undefined
            | Some watcher \<Rightarrow>
                (case sys_inotify_add_watch (inotify_fd watcher) path_str
                        (IN_CREATE OR IN_DELETE OR IN_MODIFY OR IN_MOVED_FROM OR IN_MOVED_TO) s of
                   (wd', s') \<Rightarrow> Returns (wd' \<ge> 0, s'))))"

abbreviation "watch \<equiv> Java_com_jetbrains_analyzer_filewatcher_FileWatcher_watch"

definition Java_com_jetbrains_analyzer_filewatcher_FileWatcher_unwatch ::
  "JNIEnv \<Rightarrow> nat \<Rightarrow> byte list \<Rightarrow> world \<Rightarrow> world outcome" where
  "Java_com_jetbrains_analyzer_filewatcher_FileWatcher_unwatch env watcherPtr path_str s =
     (if watcherPtr = 0 then Returns s else Returns s)"

abbreviation "unwatch \<equiv> Java_com_jetbrains_analyzer_filewatcher_FileWatcher_unwatch"

text \<open>The block under \<open>if (watcher->buffer_pos >= watcher->buffer_len)\<close>.\<close>

definition refill :: "FileWatcher \<Rightarrow> world \<Rightarrow> FileWatcher \<times> world" where
  "refill watcher s =
     (case sys_read (inotify_fd watcher) BUF_LEN s of
        ((n, d), s') \<Rightarrow>
          (watcher\<lparr>event_buffer := d @ drop (length d) (event_buffer watcher),
                   buffer_len := n, buffer_pos := 0\<rparr>, s'))"

text \<open>
  From \<open>// Parse next event from buffer\<close> to the end of \<open>nextEvent\<close>: the cast, the
  advance of the cursor by \<open>EVENT_SIZE + event->len\<close> (computed in \<open>size_t\<close>, stored in
  an \<open>int\<close>), the unlock, and \<open>create_event_object\<close> with the base path \<open>""\<close>.
\<close>

definition parse_next ::
  "JNIEnv \<Rightarrow> nat \<Rightarrow> FileWatcher \<Rightarrow> world \<Rightarrow> (jobject \<times> FileWatcher \<times> world) outcome" where
  "parse_next env h watcher s =
     (case event_at (event_buffer watcher) (buffer_pos watcher) of
        None \<Rightarrow> Undefined
      | Some event \<Rightarrow>
          (case create_event_object env event [] of
             Undefined \<Rightarrow> Undefined
           | Returns r \<Rightarrow>
               Returns (r,
                 watcher\<lparr>buffer_pos :=
                   int32 (buffer_pos watcher + int EVENT_SIZE + uint (len event))\<rparr>,
                 emit (Mutex_unlock h) s)))"

definition nextEvent_body ::
  "JNIEnv \<Rightarrow> nat \<Rightarrow> FileWatcher \<Rightarrow> world \<Rightarrow> (jobject \<times> FileWatcher \<times> world) outcome" where
  "nextEvent_body env h watcher s =
     (if buffer_pos watcher \<ge> buffer_len watcher then
        (case refill watcher (emit (Mutex_lock h) s) of
           (watcher', s') \<Rightarrow>
             if buffer_len watcher' \<le> 0 then Returns (NULL, watcher', emit (Mutex_unlock h) s')
             else parse_next env h watcher' s')
      else parse_next env h watcher (emit (Mutex_lock h) s))"

definition Java_com_jetbrains_analyzer_filewatcher_FileWatcher_nextEvent ::
  "JNIEnv \<Rightarrow> nat \<Rightarrow> world \<Rightarrow> (jobject \<times> world) outcome" where
  "Java_com_jetbrains_analyzer_filewatcher_FileWatcher_nextEvent env watcherPtr s =
     (if watcherPtr = 0 then Returns (NULL, s)
      else (case heap s watcherPtr of
              None \<Rightarrow> Undefined
            | Some watcher \<Rightarrow>
                (case nextEvent_body env watcherPtr watcher s of
                   Undefined \<Rightarrow> Undefined
                 | Returns (r, watcher', s') \<Rightarrow>
                     Returns (r, s'\<lparr>heap := (heap s')(watcherPtr \<mapsto> watcher')\<rparr>))))"

abbreviation "nextEvent \<equiv> Java_com_jetbrains_analyzer_filewatcher_FileWatcher_nextEvent"

definition Java_com_jetbrains_analyzer_filewatcher_FileWatcher_close ::
  "JNIEnv \<Rightarrow> nat \<Rightarrow> world \<Rightarrow> world outcome" where
  "Java_com_jetbrains_analyzer_filewatcher_FileWatcher_close env watcherPtr s =
     (if watcherPtr = 0 then Returns s
      else (case heap s watcherPtr of
              None \<Rightarrow> Undefined
            | Some watcher \<Rightarrow>
                (let s' = sys_close (inotify_fd watcher) s
                 in Returns (s'\<lparr>heap := (heap s')(watcherPtr \<mapsto> watcher\<lparr>inotify_fd := -1\<rparr>)\<rparr>))))"

abbreviation "close \<equiv> Java_com_jetbrains_analyzer_filewatcher_FileWatcher_close"

definition Java_com_jetbrains_analyzer_filewatcher_FileWatcher_destroy ::
  "JNIEnv \<Rightarrow> nat \<Rightarrow> world \<Rightarrow> world outcome" where
  "Java_com_jetbrains_analyzer_filewatcher_FileWatcher_destroy env watcherPtr s =
     (if watcherPtr = 0 then Returns s
      else (case heap s watcherPtr of
              None \<Rightarrow> Undefined
            | Some watcher \<Rightarrow>
                (let s1 = (if inotify_fd watcher \<ge> 0 then sys_close (inotify_fd watcher) s else s);
                     s2 = emit (Free watcherPtr) (emit (Mutex_destroy watcherPtr) s1)
                 in Returns (s2\<lparr>heap := (heap s2)(watcherPtr := None)\<rparr>))))"

abbreviation "destroy \<equiv> Java_com_jetbrains_analyzer_filewatcher_FileWatcher_destroy"

text \<open>Successive \<open>nextEvent\<close> calls on one handle, one JNI environment per call.\<close>

fun polls :: "JNIEnv list \<Rightarrow> nat \<Rightarrow> world \<Rightarrow> (jobject list \<times> world) outcome" where
  "polls [] h s = Returns ([], s)"
| "polls (env # envs) h s =
     (case nextEvent env h s of
        Undefined \<Rightarrow> Undefined
      | Returns (r, s') \<Rightarrow>
          (case polls envs h s' of
             Undefined \<Rightarrow> Undefined
           | Returns (rs, s'') \<Rightarrow> Returns (r # rs, s'')))"

text \<open>The object a call hands back, without the world it leaves.\<close>

definition result :: "('a \<times> world) outcome \<Rightarrow> 'a outcome" where
  "result out = (case out of Undefined \<Rightarrow> Undefined | Returns (r, s) \<Rightarrow> Returns r)"

text \<open>One call after another: the second runs in the world the first one left.\<close>

definition and_then :: "'a outcome \<Rightarrow> ('a \<Rightarrow> 'b outcome) \<Rightarrow> 'b outcome" where
  "and_then m f = (case m of Undefined \<Rightarrow> Undefined | Returns x \<Rightarrow> f x)"

section \<open>Kernel records on the wire\<close>

text \<open>
  What the kernel writes for one event: the four header fields, then the name field,
  which is the file name followed by at least one NUL of padding, or nothing at all
  for an event without a name; \<open>len\<close> is the length of the name field.
\<close>

record kernel_record =
  k_wd :: uint32
  k_mask :: uint32
  k_cookie :: uint32
  k_name :: "byte list"
  k_pad :: nat

definition le32_bytes :: "uint32 \<Rightarrow> byte list" where
  "le32_bytes x = map (\<lambda>i. char_of (unat x div 256 ^ i)) [0, 1, 2, 3]"

definition name_field :: "kernel_record \<Rightarrow> byte list" where
  "name_field r = k_name r @ replicate (k_pad r) NUL"

definition encode :: "kernel_record \<Rightarrow> byte list" where
  "encode r = le32_bytes (k_wd r) @ le32_bytes (k_mask r) @ le32_bytes (k_cookie r)
                @ le32_bytes (word_of_nat (length (name_field r))) @ name_field r"

definition well_formed :: "kernel_record \<Rightarrow> bool" where
  "well_formed r = (NUL \<notin> set (k_name r) \<and> (k_name r = [] \<or> 0 < k_pad r))"

text \<open>
  The event \<open>nextEvent\<close> is expected to hand to Java for a record: its kind, and the
  name behind the empty base path.
\<close>

definition delivered :: "kernel_record \<Rightarrow> jobject" where
  "delivered r = Event (event_kind (k_mask r))
                   (if name_field r = [] then [] else take 1023 (''/'' @ k_name r))"

text \<open>
  What \<open>nextEvent\<close> hands to Java for a record in a call with the given JNI outcomes:
  the event, or null when \<open>NewStringUTF\<close> or \<open>NewObject\<close> fails.
\<close>

definition handed :: "JNIEnv \<Rightarrow> kernel_record \<Rightarrow> jobject" where
  "handed env r = (if NewStringUTF_ok env \<and> NewObject_ok env then delivered r else NULL)"

definition locked_steps :: "nat \<Rightarrow> nat \<Rightarrow> action list" where
  "locked_steps h n = concat (replicate n [Mutex_lock h, Mutex_unlock h])"

text \<open>
  The world after a watcher \<open>w\<close> with nothing buffered has read \<open>chunk\<close> from the kernel
  (leaving \<open>rest\<close> pending) and \<open>n\<close> calls have decoded it to its end: the buffer holds
  the chunk, the cursor stands at the reported length, and the trace holds the one
  read of the first call between its lock and unlock, then a lock and an unlock for
  each later call.
\<close>

definition read_and_decoded ::
  "nat \<Rightarrow> FileWatcher \<Rightarrow> byte list \<Rightarrow> byte list list \<Rightarrow> nat \<Rightarrow> world \<Rightarrow> world" where
  "read_and_decoded h w chunk rest n s =
     s\<lparr>heap := (heap s)(h \<mapsto> w\<lparr>event_buffer := chunk @ drop (length chunk) (event_buffer w),
                                  buffer_len := int (length chunk),
                                  buffer_pos := int (length chunk)\<rparr>),
       pending := (pending s)(inotify_fd w := rest),
       trace := trace s @ [Mutex_lock h, Sys_read (inotify_fd w), Mutex_unlock h]
                  @ locked_steps h (n - 1)\<rparr>"

section \<open>Concrete situations\<close>

definition jni_ok :: JNIEnv where
  "jni_ok = \<lparr> GetStringUTFChars_ok = True, NewStringUTF_ok = True, NewObject_ok = True \<rparr>"

definition jni_no_memory :: JNIEnv where
  "jni_no_memory = \<lparr> GetStringUTFChars_ok = True, NewStringUTF_ok = False, NewObject_ok = True \<rparr>"

definition rec_foo :: kernel_record where
  "rec_foo = \<lparr> k_wd = 1, k_mask = IN_CREATE, k_cookie = 0, k_name = ''foo.txt'', k_pad = 9 \<rparr>"

definition rec_bar :: kernel_record where
  "rec_bar = \<lparr> k_wd = 1, k_mask = IN_CREATE, k_cookie = 0, k_name = ''bar.txt'', k_pad = 9 \<rparr>"

definition rec_ignored :: kernel_record where
  "rec_ignored = \<lparr> k_wd = 1, k_mask = IN_IGNORED, k_cookie = 0, k_name = [], k_pad = 0 \<rparr>"

text \<open>The \<open>BUF_LEN\<close> bytes of an event buffer that starts with \<open>data\<close>.\<close>

definition memory_of :: "byte list \<Rightarrow> byte list" where
  "memory_of data = data @ replicate (BUF_LEN - length data) NUL"

definition watcher_at :: "int \<Rightarrow> byte list \<Rightarrow> int \<Rightarrow> int \<Rightarrow> FileWatcher" where
  "watcher_at fd data pos n =
     \<lparr> inotify_fd = fd, event_buffer = memory_of data, buffer_pos = pos, buffer_len = n \<rparr>"

text \<open>
  A process with one watcher at address 4096 on descriptor 3, \<open>/tmp/x\<close> an existing
  directory, and the given registrations and pending reads of descriptor 3.
\<close>

definition world_of ::
  "FileWatcher \<Rightarrow> (int \<times> int \<times> byte list) list \<Rightarrow> byte list list \<Rightarrow> world" where
  "world_of w regs chunks =
     \<lparr> heap = [4096 \<mapsto> w], open_fds = [3], watches = regs, next_wd = int (length regs) + 1,
       watchable = [''/tmp/x''], pending = (\<lambda>fd. if fd = 3 then chunks else []),
       trace = [] \<rparr>"

section \<open>Auxiliary facts\<close>

text \<open>The defining equations of the native methods, under their short names.\<close>

lemmas watch_def = Java_com_jetbrains_analyzer_filewatcher_FileWatcher_watch_def
lemmas unwatch_def = Java_com_jetbrains_analyzer_filewatcher_FileWatcher_unwatch_def
lemmas nextEvent_def = Java_com_jetbrains_analyzer_filewatcher_FileWatcher_nextEvent_def
lemmas close_def = Java_com_jetbrains_analyzer_filewatcher_FileWatcher_close_def
lemmas destroy_def = Java_com_jetbrains_analyzer_filewatcher_FileWatcher_destroy_def

lemma length_le32_bytes [simp]: "length (le32_bytes x) = 4"
  by (simp add: le32_bytes_def)

lemma nat_bytes:
  "n mod 256 + 256 * (n div 256 mod 256 + 256 * (n div 65536 mod 256 + 256 * (n div 16777216))) = (n::nat)"
proof -
  define a where "a = n div 256"
  define b where "b = a div 256"
  define c where "c = b div 256"
  have b: "n div 65536 = b" by (simp add: a_def b_def div_mult2_eq)
  have c: "n div 16777216 = c" by (simp add: a_def b_def c_def div_mult2_eq)
  have 1: "n = n mod 256 + 256 * a" by (simp add: a_def)
  have 2: "a = a mod 256 + 256 * b" by (simp add: b_def)
  have 3: "b = b mod 256 + 256 * c" by (simp add: c_def)
  have "n mod 256 + 256 * (a mod 256 + 256 * (b mod 256 + 256 * c)) = n"
    using 1 2 3 by simp
  then show ?thesis by (simp only: b c a_def [symmetric])
qed

lemma le32_le32_bytes [simp]: "le32 (le32_bytes x) = x"
proof -
  have "unat x < 2 ^ 32" using unsigned_less [of x] by simp
  with nat_bytes [of "unat x"]
  have "foldr (\<lambda>b acc. of_char b + 256 * acc) (le32_bytes x) 0 = unat x"
    by (simp add: le32_bytes_def)
  then have "le32 (le32_bytes x) = word_of_nat (unat x)"
    by (simp only: le32_def)
  then show ?thesis by simp
qed

lemma length_encode: "length (encode r) = EVENT_SIZE + length (name_field r)"
  by (simp add: encode_def EVENT_SIZE_def)

lemma c_string_name_field:
  assumes "well_formed r" and "name_field r \<noteq> []"
  shows "c_string (name_field r @ post) = Some (k_name r)"
proof -
  from assms have pad: "0 < k_pad r"
    by (auto simp: well_formed_def name_field_def)
  then obtain n where n: "k_pad r = Suc n" by (cases "k_pad r") auto
  from assms have nonul: "NUL \<notin> set (k_name r)" by (simp add: well_formed_def)
  have "takeWhile (\<lambda>b. b \<noteq> NUL) (k_name r @ NUL # replicate n NUL @ post)
          = takeWhile (\<lambda>b. b \<noteq> NUL) (k_name r)"
    by (rule takeWhile_tail) simp
  also have "\<dots> = k_name r"
    using nonul by (auto simp: takeWhile_eq_all_conv)
  finally have "takeWhile (\<lambda>b. b \<noteq> NUL) (k_name r @ NUL # replicate n NUL @ post) = k_name r" .
  then show ?thesis
    by (simp add: c_string_def name_field_def n)
qed

lemma event_at_encode:
  "event_at (pre @ encode r @ post) (int (length pre)) =
     Some \<lparr> wd = k_wd r, ev_mask = k_mask r, cookie = k_cookie r,
            len = word_of_nat (length (name_field r)),
            name = c_string (name_field r @ post) \<rparr>"
  by (simp add: event_at_def encode_def EVENT_SIZE_def)

lemma uint_len_field:
  assumes "n < 2 ^ 31"
  shows "uint (word_of_nat n :: uint32) = int n"
proof -
  from assms have "n < 2 ^ 32" by simp
  then have "take_bit 32 n = n" by (simp add: take_bit_nat_eq_self)
  then have "unat (word_of_nat n :: uint32) = n" by (simp add: unsigned_of_nat)
  then show ?thesis by (metis uint_nat)
qed

lemma len_field_pos:
  assumes "n < 2 ^ 31"
  shows "(0 < (word_of_nat n :: uint32)) = (0 < n)"
  using uint_len_field [OF assms] by (simp add: word_less_def)

lemma full_path_encode:
  assumes "well_formed r" and "length (name_field r) < 2 ^ 31"
  shows "full_path \<lparr> wd = a, ev_mask = m, cookie = c,
            len = word_of_nat (length (name_field r)),
            name = c_string (name_field r @ post) \<rparr> [] =
         Some (if name_field r = [] then [] else take 1023 (''/'' @ k_name r))"
  using assms by (simp add: full_path_def len_field_pos c_string_name_field)

lemma parse_next_encode:
  assumes buf: "event_buffer w = pre @ encode r @ post"
    and pos: "buffer_pos w = int (length pre)"
    and wf: "well_formed r"
    and bound: "length pre + length (encode r) < 2 ^ 31"
    and ok: "NewStringUTF_ok env" "NewObject_ok env"
  shows "parse_next env h w s =
           Returns (delivered r,
                    w\<lparr>buffer_pos := int (length pre + length (encode r))\<rparr>,
                    emit (Mutex_unlock h) s)"
proof -
  from bound have L: "length (name_field r) < 2 ^ 31"
    by (simp add: length_encode)
  have adv: "int32 (int (length pre) + int EVENT_SIZE + int (length (name_field r)))
               = int (length pre + length (encode r))"
    using bound by (simp add: int32_def length_encode)
  show ?thesis
    unfolding parse_next_def buf pos event_at_encode
    by (simp add: create_event_object_def full_path_encode [OF wf L] ok
        uint_len_field [OF L] adv delivered_def)
qed

lemma nextEvent_encode:
  assumes h: "h \<noteq> 0" "heap s h = Some w"
    and buf: "event_buffer w = pre @ encode r @ post"
    and pos: "buffer_pos w = int (length pre)"
    and unread: "buffer_pos w < buffer_len w"
    and wf: "well_formed r"
    and bound: "length pre + length (encode r) < 2 ^ 31"
    and ok: "NewStringUTF_ok env" "NewObject_ok env"
  shows "nextEvent env h s =
           Returns (delivered r,
             s\<lparr>heap := (heap s)(h \<mapsto> w\<lparr>buffer_pos := int (length pre + length (encode r))\<rparr>),
               trace := trace s @ [Mutex_lock h, Mutex_unlock h]\<rparr>)"
  using h unread
  by (simp add: nextEvent_def nextEvent_body_def
      parse_next_encode [OF buf pos wf bound ok] emit_def)

lemma BUF_LEN_value: "BUF_LEN = 32768"
  by (simp add: BUF_LEN_def EVENT_SIZE_def)

lemma length_encode_foo: "length (encode rec_foo) = 32"
  by (simp add: length_encode name_field_def rec_foo_def EVENT_SIZE_def)

lemma length_encode_ignored: "length (encode rec_ignored) = 16"
  by (simp add: length_encode name_field_def rec_ignored_def EVENT_SIZE_def)

lemma delivered_foo: "delivered rec_foo = Event CREATED ''/foo.txt''"
  by (simp add: delivered_def rec_foo_def name_field_def event_kind_def
      IN_CREATE_def IN_MOVED_TO_def)

lemma delivered_ignored: "delivered rec_ignored = Event MODIFIED []"
  by (simp add: delivered_def rec_ignored_def name_field_def event_kind_def
      IN_CREATE_def IN_MOVED_TO_def IN_MODIFY_def IN_DELETE_def IN_MOVED_FROM_def
      IN_Q_OVERFLOW_def IN_IGNORED_def)

lemma and_or_zero: "(x AND (a OR b) = 0) = (x AND a = 0 \<and> x AND b = (0::uint32))"
  by (simp add: bit.conj_disj_distrib or_eq_0_iff)

lemma event_kind_bits:
  "event_kind m =
     (if m AND IN_CREATE \<noteq> 0 \<or> m AND IN_MOVED_TO \<noteq> 0 then CREATED
      else if m AND IN_MODIFY \<noteq> 0 then MODIFIED
      else if m AND IN_DELETE \<noteq> 0 \<or> m AND IN_MOVED_FROM \<noteq> 0 then DELETED
      else if m AND IN_Q_OVERFLOW \<noteq> 0 then OVERFLOW
      else MODIFIED)"
  unfolding event_kind_def and_or_zero by simp

section \<open>Classification of the event bits\<close>

text \<open>
  Claim C3.  When the Java objects can be allocated, \<open>create_event_object\<close> returns an
  event whose kind is decided by the bits of the mask in this order: a creation or
  rename-in bit gives \<open>CREATED\<close>; otherwise a modification bit gives \<open>MODIFIED\<close>;
  otherwise a deletion or rename-out bit gives \<open>DELETED\<close>; otherwise the queue-overflow
  bit gives \<open>OVERFLOW\<close>.  In particular a mask with both the creation and the
  modification bit gives \<open>CREATED\<close>, never \<open>MODIFIED\<close>.
\<close>

theorem kind_precedence:
  assumes "NewStringUTF_ok env" and "NewObject_ok env"
    and "full_path event base_path = Some p"
  shows "create_event_object env event base_path =
           Returns (Event
             (if ev_mask event AND IN_CREATE \<noteq> 0 \<or> ev_mask event AND IN_MOVED_TO \<noteq> 0 then CREATED
              else if ev_mask event AND IN_MODIFY \<noteq> 0 then MODIFIED
              else if ev_mask event AND IN_DELETE \<noteq> 0 \<or> ev_mask event AND IN_MOVED_FROM \<noteq> 0 then DELETED
              else if ev_mask event AND IN_Q_OVERFLOW \<noteq> 0 then OVERFLOW
              else MODIFIED) p)
         \<and> (ev_mask event AND IN_CREATE \<noteq> 0 \<and> ev_mask event AND IN_MODIFY \<noteq> 0 \<longrightarrow>
              create_event_object env event base_path = Returns (Event CREATED p))"
  using assms by (simp add: create_event_object_def event_kind_bits)

theorem kind_precedence_witness:
  "(IN_CREATE OR IN_MODIFY) AND IN_CREATE \<noteq> 0 \<and> (IN_CREATE OR IN_MODIFY) AND IN_MODIFY \<noteq> 0
   \<and> create_event_object jni_ok
        \<lparr> wd = 1, ev_mask = IN_CREATE OR IN_MODIFY, cookie = 0, len = 0, name = None \<rparr> ''/tmp/x''
       = Returns (Event CREATED ''/tmp/x'')"
  using kind_precedence [of jni_ok
      "\<lparr> wd = 1, ev_mask = IN_CREATE OR IN_MODIFY, cookie = 0, len = 0, name = None \<rparr>"
      "''/tmp/x''" "''/tmp/x''"]
  by (simp add: jni_ok_def full_path_def IN_CREATE_def IN_MODIFY_def)

lemma event_kind_unrecognized:
  assumes "m AND (IN_CREATE OR IN_MOVED_TO OR IN_MODIFY OR IN_DELETE OR IN_MOVED_FROM
             OR IN_Q_OVERFLOW) = 0"
  shows "event_kind m = MODIFIED"
  using assms by (simp add: event_kind_bits and_or_zero)

text \<open>
  Claim C10.  A mask with none of the six recognised bits (creation, rename-in,
  modification, deletion, rename-out, queue-overflow) is classified as \<open>MODIFIED\<close>:
  \<open>create_event_object\<close> returns a \<open>MODIFIED\<close> event, and \<open>nextEvent\<close> hands the
  buffered record to the caller as a \<open>MODIFIED\<close> event instead of dropping it.  The
  \<open>IN_IGNORED\<close> notification of a removed watch is such a record.
\<close>

theorem unrecognized_bits_delivered_as_modified:
  assumes "ev_mask event AND (IN_CREATE OR IN_MOVED_TO OR IN_MODIFY OR IN_DELETE
             OR IN_MOVED_FROM OR IN_Q_OVERFLOW) = 0"
    and "NewStringUTF_ok env" and "NewObject_ok env"
  shows "(full_path event base_path = Some p \<longrightarrow>
            create_event_object env event base_path = Returns (Event MODIFIED p))
       \<and> (h \<noteq> 0 \<and> heap s h = Some w \<and> buffer_pos w < buffer_len w
            \<and> event_at (event_buffer w) (buffer_pos w) = Some event
            \<and> full_path event [] = Some p \<longrightarrow>
            result (nextEvent env h s) = Returns (Event MODIFIED p))"
  using assms
  by (simp add: create_event_object_def event_kind_unrecognized nextEvent_def
      nextEvent_body_def parse_next_def result_def)

lemma event_at_ignored:
  "event_at (memory_of (encode rec_ignored)) 0 =
     Some \<lparr> wd = 1, ev_mask = IN_IGNORED, cookie = 0, len = 0,
            name = c_string (replicate (BUF_LEN - 16) NUL) \<rparr>"
  using event_at_encode [of "[]" rec_ignored "replicate (BUF_LEN - 16) NUL"]
  by (simp add: memory_of_def length_encode_ignored)
     (simp add: rec_ignored_def name_field_def)

theorem unrecognized_bits_delivered_as_modified_witness:
  "IN_IGNORED AND (IN_CREATE OR IN_MOVED_TO OR IN_MODIFY OR IN_DELETE OR IN_MOVED_FROM
      OR IN_Q_OVERFLOW) = 0
   \<and> create_event_object jni_ok
        \<lparr> wd = 1, ev_mask = IN_IGNORED, cookie = 0, len = 0,
          name = c_string (replicate (BUF_LEN - 16) NUL) \<rparr> [] = Returns (Event MODIFIED [])
   \<and> result (nextEvent jni_ok 4096 (world_of (watcher_at 3 (encode rec_ignored) 0 16) [] []))
       = Returns (Event MODIFIED [])"
proof -
  let ?ev = "\<lparr> wd = 1, ev_mask = IN_IGNORED, cookie = 0, len = 0,
               name = c_string (replicate (BUF_LEN - 16) NUL) \<rparr>"
  let ?w = "watcher_at 3 (encode rec_ignored) 0 16"
  have bits: "ev_mask ?ev AND (IN_CREATE OR IN_MOVED_TO OR IN_MODIFY OR IN_DELETE
      OR IN_MOVED_FROM OR IN_Q_OVERFLOW) = 0"
    by (simp add: IN_IGNORED_def IN_CREATE_def IN_MOVED_TO_def IN_MODIFY_def IN_DELETE_def
        IN_MOVED_FROM_def IN_Q_OVERFLOW_def)
  have fp: "full_path ?ev [] = Some []" by (simp add: full_path_def)
  have st: "(4096::nat) \<noteq> 0 \<and> heap (world_of ?w [] []) 4096 = Some ?w \<and> buffer_pos ?w < buffer_len ?w
            \<and> event_at (event_buffer ?w) (buffer_pos ?w) = Some ?ev"
    by (simp add: world_of_def watcher_at_def event_at_ignored)
  from unrecognized_bits_delivered_as_modified
         [of ?ev jni_ok "[]" "[]" 4096 "world_of ?w [] []" ?w, OF bits] fp st bits
  show ?thesis by (simp add: jni_ok_def)
qed

section \<open>The debug toggle\<close>

text \<open>
  Against claim C9 as stated: with \<open>FILEWATCHER_DEBUG\<close> unset, the first call of
  \<open>is_debug_enabled\<close> returns 0 and caches 0: debug logging is disabled.
\<close>

theorem debug_unset_counterexample:
  "is_debug_enabled None (-1) = (0, 0)"
  by (simp add: is_debug_enabled_def)

text \<open>
  Claim C9, amended.  The first call of \<open>is_debug_enabled\<close> reads the variable and
  caches the answer; the answer is 1 exactly when the variable is set and its value
  does not begin with the character \<open>0\<close> (the NUL of an empty value counts as not
  \<open>0\<close>), and 0 otherwise, so also when it is unset.  Every later call returns the
  cached answer, whatever the environment holds by then.
\<close>

theorem debug_toggle_read_once:
  assumes "is_debug_enabled e (-1) = (v, st)"
  shows "st = v \<and> (v = 0 \<or> v = 1)
       \<and> (v = 1 \<longleftrightarrow> (\<exists>val. e = Some val \<and> first_char val \<noteq> CHR ''0''))
       \<and> is_debug_enabled e' st = (v, st)"
  using assms by (auto simp: is_debug_enabled_def Let_def split: option.splits if_splits)

theorem debug_toggle_read_once_witness:
  "is_debug_enabled (Some ''1'') (-1) = (1, 1) \<and> first_char ''1'' \<noteq> CHR ''0''
   \<and> is_debug_enabled None 1 = (1, 1)"
proof -
  have "is_debug_enabled (Some ''1'') (-1) = (1, 1)"
    by (simp add: is_debug_enabled_def first_char_def)
  from debug_toggle_read_once [OF this, of None] this show ?thesis
    by (simp add: first_char_def)
qed

lemma heap_world_of: "heap (world_of w regs chunks) 4096 = Some w"
  by (simp add: world_of_def)

lemma destroy_frees:
  assumes "h \<noteq> 0" and "heap s h = Some w"
  shows "\<exists>s'. destroy env h s = Returns s' \<and> heap s' h = None"
  using assms by (simp add: destroy_def Let_def)

lemma freed_handle_undefined:
  assumes "h \<noteq> 0" and "heap s h = None"
  shows "GetStringUTFChars_ok env \<Longrightarrow> watch env h p s = Undefined"
    and "nextEvent env h s = Undefined"
    and "close env h s = Undefined"
    and "destroy env h s = Undefined"
  using assms by (simp_all add: watch_def nextEvent_def close_def destroy_def)

section \<open>Handles after \<open>destroy\<close>\<close>

text \<open>
  Against claim C7 as stated: after \<open>destroy\<close> has freed the watcher at address 4096,
  \<open>watch\<close>, \<open>nextEvent\<close>, \<open>close\<close> and \<open>destroy\<close> on that handle read the freed
  struct: none of them returns a failure value, their behaviour is undefined.
\<close>

theorem destroyed_handle_counterexample:
  "and_then (destroy jni_ok 4096 (world_of (watcher_at 3 [] 0 0) [] [])) (watch jni_ok 4096 ''/tmp/x'')
     = Undefined
   \<and> and_then (destroy jni_ok 4096 (world_of (watcher_at 3 [] 0 0) [] [])) (nextEvent jni_ok 4096)
     = Undefined
   \<and> and_then (destroy jni_ok 4096 (world_of (watcher_at 3 [] 0 0) [] [])) (close jni_ok 4096)
     = Undefined
   \<and> and_then (destroy jni_ok 4096 (world_of (watcher_at 3 [] 0 0) [] [])) (destroy jni_ok 4096)
     = Undefined"
proof -
  have one: "(4096::nat) \<noteq> 0" by simp
  from destroy_frees [OF one heap_world_of]
  obtain s' where d: "destroy jni_ok 4096 (world_of (watcher_at 3 [] 0 0) [] []) = Returns s'"
    and f: "heap s' 4096 = None" by blast
  have "GetStringUTFChars_ok jni_ok" by (simp add: jni_ok_def)
  with freed_handle_undefined [OF one f] show ?thesis
    by (simp add: d and_then_def)
qed

text \<open>
  Claim C7, amended.  The handle the operations reject is the null handle: with it
  \<open>watch\<close> returns false, \<open>nextEvent\<close> returns null, and \<open>unwatch\<close>, \<open>close\<close> and
  \<open>destroy\<close> return, each leaving the world (kernel and trace included) as it was.
  \<open>destroy\<close> on a live watcher frees it; \<open>unwatch\<close> on the freed handle, which never
  looks at the struct, still returns and changes nothing.
\<close>

theorem null_handle_guard:
  assumes "h \<noteq> 0" and "heap s h = Some w"
  shows "watch env 0 p s = Returns (False, s) \<and> unwatch env 0 p s = Returns s
       \<and> nextEvent env 0 s = Returns (NULL, s) \<and> close env 0 s = Returns s
       \<and> destroy env 0 s = Returns s
       \<and> (\<exists>s'. destroy env h s = Returns s' \<and> heap s' h = None
              \<and> unwatch env h p s' = Returns s')"
  using assms
  by (simp add: watch_def unwatch_def nextEvent_def close_def destroy_def Let_def)

theorem null_handle_guard_witness:
  "watch jni_ok 0 ''/tmp/x'' (world_of (watcher_at 3 [] 0 0) [] [])
     = Returns (False, world_of (watcher_at 3 [] 0 0) [] [])
   \<and> nextEvent jni_ok 0 (world_of (watcher_at 3 [] 0 0) [] [])
     = Returns (NULL, world_of (watcher_at 3 [] 0 0) [] [])
   \<and> (\<exists>s'. destroy jni_ok 4096 (world_of (watcher_at 3 [] 0 0) [] []) = Returns s'
          \<and> heap s' 4096 = None \<and> unwatch jni_ok 4096 ''/tmp/x'' s' = Returns s')"
  using null_handle_guard [of 4096 "world_of (watcher_at 3 [] 0 0) [] []" "watcher_at 3 [] 0 0"
      jni_ok "''/tmp/x''"]
  by (simp add: heap_world_of)

lemma find_Some_member: "find P xs = Some x \<Longrightarrow> x \<in> set xs \<and> P x"
  by (induction xs) (auto split: if_splits)

lemma sys_inotify_add_watch_registered:
  assumes "sys_inotify_add_watch fd p m s = (n, s')" and "0 \<le> n"
  shows "\<exists>n'. (fd, n', p) \<in> set (watches s')"
proof (cases "fd < 0 \<or> fd \<notin> set (open_fds s) \<or> p \<notin> set (watchable s)")
  case True
  with assms show ?thesis by (auto simp: sys_inotify_add_watch_def Let_def)
next
  case False
  show ?thesis
  proof (cases "find (\<lambda>(f, w, q). f = fd \<and> q = p) (watches s)")
    case None
    with False assms show ?thesis
      by (auto simp: sys_inotify_add_watch_def Let_def emit_def)
  next
    case (Some t)
    then obtain f w q where t: "t = (f, w, q)" by (cases t) auto
    have "t \<in> set (watches s)" and "(\<lambda>(f, w, q). f = fd \<and> q = p) t"
      using find_Some_member [OF Some] by simp_all
    with t have "(fd, w, p) \<in> set (watches s)" by simp
    with False assms Some t show ?thesis
      by (auto simp: sys_inotify_add_watch_def Let_def emit_def)
  qed
qed

section \<open>\<open>unwatch\<close>\<close>

text \<open>
  Claim C1, as the code has it.  After a successful \<open>watch\<close> of a path, \<open>unwatch\<close>
  of the same path returns with the world unchanged: it makes no system call, and the
  kernel registration that \<open>watch\<close> obtained for the path is still there.
\<close>

theorem unwatch_leaves_registration:
  assumes "watch env h p s = Returns (True, s1)"
  shows "unwatch env' h p s1 = Returns s1
       \<and> (\<exists>w n. heap s h = Some w \<and> (inotify_fd w, n, p) \<in> set (watches s1))"
proof -
  from assms obtain w where w: "heap s h = Some w"
    by (auto simp: watch_def split: if_splits option.splits)
  with assms obtain n where "sys_inotify_add_watch (inotify_fd w) p
      (IN_CREATE OR IN_DELETE OR IN_MODIFY OR IN_MOVED_FROM OR IN_MOVED_TO) s = (n, s1)" and "0 \<le> n"
    by (auto simp: watch_def split: if_splits prod.splits)
  from sys_inotify_add_watch_registered [OF this] w show ?thesis
    by (auto simp: unwatch_def)
qed

theorem unwatch_leaves_registration_witness:
  "watch jni_ok 4096 ''/tmp/x'' (world_of (watcher_at 3 [] 0 0) [] [])
     = Returns (True, (world_of (watcher_at 3 [] 0 0) [(3, 1, ''/tmp/x'')] [])
                        \<lparr>trace := [Sys_inotify_add_watch 3 ''/tmp/x'' 0x3C2]\<rparr>)
   \<and> unwatch jni_ok 4096 ''/tmp/x'' ((world_of (watcher_at 3 [] 0 0) [(3, 1, ''/tmp/x'')] [])
                        \<lparr>trace := [Sys_inotify_add_watch 3 ''/tmp/x'' 0x3C2]\<rparr>)
     = Returns ((world_of (watcher_at 3 [] 0 0) [(3, 1, ''/tmp/x'')] [])
                        \<lparr>trace := [Sys_inotify_add_watch 3 ''/tmp/x'' 0x3C2]\<rparr>)
   \<and> (3, 1, ''/tmp/x'') \<in> set (watches ((world_of (watcher_at 3 [] 0 0) [(3, 1, ''/tmp/x'')] [])
                        \<lparr>trace := [Sys_inotify_add_watch 3 ''/tmp/x'' 0x3C2]\<rparr>))"
proof -
  let ?s = "world_of (watcher_at 3 [] 0 0) [] []"
  let ?s1 = "(world_of (watcher_at 3 [] 0 0) [(3, 1, ''/tmp/x'')] [])
                        \<lparr>trace := [Sys_inotify_add_watch 3 ''/tmp/x'' 0x3C2]\<rparr>"
  have w: "watch jni_ok 4096 ''/tmp/x'' ?s = Returns (True, ?s1)"
    by (simp add: watch_def jni_ok_def sys_inotify_add_watch_def world_of_def watcher_at_def
        emit_def Let_def IN_CREATE_def IN_DELETE_def IN_MODIFY_def IN_MOVED_FROM_def
        IN_MOVED_TO_def)
  from unwatch_leaves_registration [OF w, of jni_ok] w show ?thesis
    by (simp add: world_of_def)
qed

section \<open>The mutex\<close>

text \<open>
  Claim C8, as the code has it.  On a live watcher, all that \<open>watch\<close> does to the
  outside is the \<open>inotify_add_watch\<close> call, \<open>unwatch\<close> does nothing, and \<open>close\<close> does
  the \<open>close\<close> call and then writes \<open>inotify_fd\<close>: none of the three locks or unlocks
  the mutex.  (Only \<open>nextEvent\<close> does, see \<open>nextEvent_encode\<close>.)
\<close>

theorem watch_unwatch_close_never_lock:
  assumes "h \<noteq> 0" and "heap s h = Some w" and "GetStringUTFChars_ok env"
  shows "(\<exists>b s'. watch env h p s = Returns (b, s')
            \<and> trace s' = trace s @ [Sys_inotify_add_watch (inotify_fd w) p
                 (IN_CREATE OR IN_DELETE OR IN_MODIFY OR IN_MOVED_FROM OR IN_MOVED_TO)])
       \<and> (\<exists>s'. unwatch env h p s = Returns s' \<and> trace s' = trace s)
       \<and> (\<exists>s'. close env h s = Returns s'
            \<and> trace s' = trace s @ [Sys_close (inotify_fd w)]
            \<and> heap s' h = Some (w\<lparr>inotify_fd := -1\<rparr>))"
  using assms
  by (auto simp: watch_def unwatch_def close_def sys_inotify_add_watch_def sys_close_def
      emit_def Let_def split: option.splits prod.splits)

theorem watch_unwatch_close_never_lock_witness:
  "(\<exists>b s'. watch jni_ok 4096 ''/tmp/x'' (world_of (watcher_at 3 [] 0 0) [] []) = Returns (b, s')
            \<and> trace s' = [Sys_inotify_add_watch 3 ''/tmp/x'' 0x3C2])
   \<and> (\<exists>s'. unwatch jni_ok 4096 ''/tmp/x'' (world_of (watcher_at 3 [] 0 0) [] []) = Returns s'
            \<and> trace s' = [])
   \<and> (\<exists>s'. close jni_ok 4096 (world_of (watcher_at 3 [] 0 0) [] []) = Returns s'
            \<and> trace s' = [Sys_close 3]
            \<and> heap s' 4096 = Some (watcher_at (-1) [] 0 0))"
proof -
  have tr: "trace (world_of (watcher_at 3 [] 0 0) [] []) = []" by (simp add: world_of_def)
  have fd: "inotify_fd (watcher_at 3 [] 0 0) = 3"
    and w': "(watcher_at 3 [] 0 0)\<lparr>inotify_fd := -1\<rparr> = watcher_at (-1) [] 0 0"
    by (simp_all add: watcher_at_def)
  have ok: "GetStringUTFChars_ok jni_ok" by (simp add: jni_ok_def)
  have one: "(4096::nat) \<noteq> 0" by simp
  from watch_unwatch_close_never_lock
         [OF one heap_world_of [of "watcher_at 3 [] 0 0" "[]" "[]"] ok, where p = "''/tmp/x''"]
  show ?thesis unfolding tr fd w'
    by (simp add: IN_CREATE_def IN_DELETE_def IN_MODIFY_def IN_MOVED_FROM_def IN_MOVED_TO_def)
qed

lemma nextEvent_refill_encode:
  assumes h: "h \<noteq> 0" "heap s h = Some w"
    and drained: "buffer_len w \<le> buffer_pos w"
    and fd: "0 \<le> inotify_fd w" "inotify_fd w \<in> set (open_fds s)"
    and chunk: "pending s (inotify_fd w) = (encode r @ tl_bytes) # rest"
    and fits: "length (encode r @ tl_bytes) \<le> BUF_LEN"
    and wf: "well_formed r"
    and ok: "NewStringUTF_ok env" "NewObject_ok env"
  shows "result (nextEvent env h s) = Returns (delivered r)"
proof -
  define chunk where "chunk = encode r @ tl_bytes"
  define w' where "w' = w\<lparr>event_buffer := chunk @ drop (length chunk) (event_buffer w),
               buffer_len := int (length chunk), buffer_pos := 0\<rparr>"
  define s' where "s' = (emit (Sys_read (inotify_fd w)) (emit (Mutex_lock h) s))
               \<lparr>pending := (pending s)(inotify_fd w := rest)\<rparr>"
  have rf: "refill w (emit (Mutex_lock h) s) = (w', s')"
    using fd chunk fits
    by (simp add: refill_def sys_read_def emit_def Let_def w'_def s'_def chunk_def)
  have bound: "length ([]::byte list) + length (encode r) < 2 ^ 31"
    using fits by (simp add: BUF_LEN_value)
  have pn: "parse_next env h w' s' =
              Returns (delivered r,
                w'\<lparr>buffer_pos := int (length ([]::byte list) + length (encode r))\<rparr>,
                emit (Mutex_unlock h) s')"
    by (rule parse_next_encode [where post = "tl_bytes @ drop (length chunk) (event_buffer w)",
          OF _ _ wf bound ok]) (simp_all add: w'_def chunk_def)
  have len: "\<not> buffer_len w' \<le> 0"
    by (simp add: w'_def chunk_def length_encode EVENT_SIZE_def)
  have "nextEvent_body env h w s = parse_next env h w' s'"
    using drained len by (simp add: nextEvent_body_def rf)
  with h show ?thesis
    by (simp add: nextEvent_def pn result_def)
qed

section \<open>The path of a delivered event\<close>

text \<open>
  Claim C2, as the code has it.  The watcher watches \<open>/tmp/x\<close> (registration 1 of
  descriptor 3) and the kernel reports the creation of \<open>foo.txt\<close> in it: \<open>nextEvent\<close>
  delivers the path \<open>/foo.txt\<close>, not \<open>/tmp/x/foo.txt\<close>.
\<close>

theorem delivered_path_lacks_watched_directory:
  "result (nextEvent jni_ok 4096
     (world_of (watcher_at 3 [] 0 0) [(3, 1, ''/tmp/x'')] [encode rec_foo]))
   = Returns (Event CREATED ''/foo.txt'')"
proof -
  let ?s = "world_of (watcher_at 3 [] 0 0) [(3, 1, ''/tmp/x'')] [encode rec_foo]"
  have "result (nextEvent jni_ok 4096 ?s) = Returns (delivered rec_foo)"
  proof (rule nextEvent_refill_encode [where tl_bytes = "[]" and rest = "[]"])
    show "(4096::nat) \<noteq> 0" by simp
    show "heap ?s 4096 = Some (watcher_at 3 [] 0 0)" by (rule heap_world_of)
    show "well_formed rec_foo" by (simp add: well_formed_def rec_foo_def NUL_def)
    show "length (encode rec_foo @ []) \<le> BUF_LEN"
      by (simp add: length_encode_foo BUF_LEN_value)
  qed (simp_all add: watcher_at_def world_of_def jni_ok_def)
  then show ?thesis by (simp add: delivered_foo)
qed

lemma nextEvent_closed_drained:
  assumes "h \<noteq> 0" and "heap s h = Some w"
    and "inotify_fd w = -1" and "buffer_len w \<le> buffer_pos w"
  shows "\<exists>s' w'. nextEvent env h s = Returns (NULL, s') \<and> heap s' h = Some w'
            \<and> inotify_fd w' = -1 \<and> buffer_len w' \<le> buffer_pos w'"
  using assms
  by (simp add: nextEvent_def nextEvent_body_def refill_def sys_read_def emit_def Let_def)

lemma polls_closed_drained:
  assumes "h \<noteq> 0" and "heap s h = Some w"
    and "inotify_fd w = -1" and "buffer_len w \<le> buffer_pos w"
  shows "\<exists>s'. polls envs h s = Returns (replicate (length envs) NULL, s')"
  using assms
proof (induction envs arbitrary: s w)
  case Nil
  then show ?case by simp
next
  case (Cons e es)
  from nextEvent_closed_drained [OF Cons.prems, of e]
  obtain s1 w1 where step: "nextEvent e h s = Returns (NULL, s1)"
    and inv: "heap s1 h = Some w1" "inotify_fd w1 = -1" "buffer_len w1 \<le> buffer_pos w1"
    by blast
  from Cons.IH [OF Cons.prems(1) inv]
  obtain s2 where "polls es h s1 = Returns (replicate (length es) NULL, s2)" by blast
  with step show ?case by simp
qed

section \<open>Polling after \<open>close\<close>\<close>

text \<open>
  Claim C6, amended.  \<open>close\<close> sets \<open>inotify_fd\<close> to \<open>-1\<close> and leaves the buffer and
  its cursor alone.  When the buffer holds no unconsumed record at that point (the
  cursor is not below the reported length), every later sequence of \<open>nextEvent\<close> calls
  returns null each time; and the same holds from any state of a closed watcher in
  which the buffer has been used up.
\<close>

theorem drained_closed_watcher_polls_null:
  assumes "h \<noteq> 0" and "heap s h = Some w"
  shows "(\<exists>s1. close env h s = Returns s1
            \<and> heap s1 h = Some (w\<lparr>inotify_fd := -1\<rparr>)
            \<and> (buffer_len w \<le> buffer_pos w \<longrightarrow>
                 (\<exists>s2. polls envs h s1 = Returns (replicate (length envs) NULL, s2))))
       \<and> (inotify_fd w = -1 \<and> buffer_len w \<le> buffer_pos w \<longrightarrow>
            (\<exists>s2. polls envs h s = Returns (replicate (length envs) NULL, s2)))"
proof -
  obtain s1 where c: "close env h s = Returns s1"
    and h1: "heap s1 h = Some (w\<lparr>inotify_fd := -1\<rparr>)"
    using assms by (simp add: close_def Let_def)
  have "\<exists>s2. polls envs h s1 = Returns (replicate (length envs) NULL, s2)"
    if "buffer_len w \<le> buffer_pos w"
    by (rule polls_closed_drained [OF assms(1) h1]) (use that in simp_all)
  moreover have "\<exists>s2. polls envs h s = Returns (replicate (length envs) NULL, s2)"
    if "inotify_fd w = -1" "buffer_len w \<le> buffer_pos w"
    by (rule polls_closed_drained [OF assms that])
  ultimately show ?thesis using c h1 by simp
qed

theorem drained_closed_watcher_polls_null_witness:
  "\<exists>s1. close jni_ok 4096 (world_of (watcher_at 3 [] 0 0) [] []) = Returns s1
      \<and> heap s1 4096 = Some (watcher_at (-1) [] 0 0)
      \<and> (\<exists>s2. polls [jni_ok, jni_ok, jni_ok] 4096 s1 = Returns ([NULL, NULL, NULL], s2))"
proof -
  have one: "(4096::nat) \<noteq> 0" by simp
  have w': "(watcher_at 3 [] 0 0)\<lparr>inotify_fd := -1\<rparr> = watcher_at (-1) [] 0 0"
    and d: "buffer_len (watcher_at 3 [] 0 0) \<le> buffer_pos (watcher_at 3 [] 0 0)"
    by (simp_all add: watcher_at_def)
  from drained_closed_watcher_polls_null
         [OF one heap_world_of [of "watcher_at 3 [] 0 0" "[]" "[]"],
          of jni_ok "[jni_ok, jni_ok, jni_ok]"] d
  show ?thesis unfolding w' by (simp add: numeral_3_eq_3)
qed

text \<open>
  Against claim C6 as stated: a watcher has read two records and handed out the first.
  After \<open>close\<close>, the next \<open>nextEvent\<close> call returns the second record, not null.
\<close>

theorem poll_after_close_counterexample:
  "result (and_then
     (close jni_ok 4096
        (world_of (watcher_at 3 (encode rec_foo @ encode rec_ignored) 32 48) [] []))
     (nextEvent jni_ok 4096))
   = Returns (Event MODIFIED [])"
proof -
  let ?w = "watcher_at 3 (encode rec_foo @ encode rec_ignored) 32 48"
  let ?w1 = "?w\<lparr>inotify_fd := -1\<rparr>"
  have one: "(4096::nat) \<noteq> 0" by simp
  obtain s1 where c: "close jni_ok 4096 (world_of ?w [] []) = Returns s1"
    and h1: "heap s1 4096 = Some ?w1"
    using heap_world_of [of ?w "[]" "[]"] by (simp add: close_def Let_def)
  have "nextEvent jni_ok 4096 s1 =
           Returns (delivered rec_ignored,
             s1\<lparr>heap := (heap s1)(4096 \<mapsto> ?w1\<lparr>buffer_pos :=
                     int (length (encode rec_foo) + length (encode rec_ignored))\<rparr>),
               trace := trace s1 @ [Mutex_lock 4096, Mutex_unlock 4096]\<rparr>)"
  proof (rule nextEvent_encode [where post = "replicate (BUF_LEN - 48) NUL"])
    show "(4096::nat) \<noteq> 0" by simp
    show "heap s1 4096 = Some ?w1" by fact
    show "event_buffer ?w1 = encode rec_foo @ encode rec_ignored @ replicate (BUF_LEN - 48) NUL"
      by (simp add: watcher_at_def memory_of_def length_encode_foo length_encode_ignored)
    show "buffer_pos ?w1 = int (length (encode rec_foo))"
      by (simp add: watcher_at_def length_encode_foo)
    show "buffer_pos ?w1 < buffer_len ?w1" by (simp add: watcher_at_def)
    show "well_formed rec_ignored" by (simp add: well_formed_def rec_ignored_def)
    show "length (encode rec_foo) + length (encode rec_ignored) < 2 ^ 31"
      by (simp add: length_encode_foo length_encode_ignored)
    show "NewStringUTF_ok jni_ok" "NewObject_ok jni_ok" by (simp_all add: jni_ok_def)
  qed
  then show ?thesis
    by (simp add: c and_then_def result_def delivered_ignored)
qed

lemma parse_next_handed:
  assumes buf: "event_buffer w = pre @ encode r @ post"
    and pos: "buffer_pos w = int (length pre)"
    and wf: "well_formed r"
    and bound: "length pre + length (encode r) < 2 ^ 31"
  shows "parse_next env h w s =
           Returns (handed env r,
                    w\<lparr>buffer_pos := int (length pre + length (encode r))\<rparr>,
                    emit (Mutex_unlock h) s)"
proof -
  from bound have L: "length (name_field r) < 2 ^ 31"
    by (simp add: length_encode)
  have adv: "int32 (int (length pre) + int EVENT_SIZE + int (length (name_field r)))
               = int (length pre + length (encode r))"
    using bound by (simp add: int32_def length_encode)
  show ?thesis
    unfolding parse_next_def buf pos event_at_encode
    by (simp add: create_event_object_def full_path_encode [OF wf L]
        uint_len_field [OF L] adv delivered_def handed_def)
qed

lemma nextEvent_handed:
  assumes h: "h \<noteq> 0" "heap s h = Some w"
    and buf: "event_buffer w = pre @ encode r @ post"
    and pos: "buffer_pos w = int (length pre)"
    and unread: "buffer_pos w < buffer_len w"
    and wf: "well_formed r"
    and bound: "length pre + length (encode r) < 2 ^ 31"
  shows "nextEvent env h s =
           Returns (handed env r,
             s\<lparr>heap := (heap s)(h \<mapsto> w\<lparr>buffer_pos := int (length pre + length (encode r))\<rparr>),
               trace := trace s @ [Mutex_lock h, Mutex_unlock h]\<rparr>)"
  using h unread
  by (simp add: nextEvent_def nextEvent_body_def
      parse_next_handed [OF buf pos wf bound] emit_def)

lemma polls_handed:
  assumes "h \<noteq> 0" and "heap s h = Some w"
    and "event_buffer w = pre @ concat (map encode recs) @ post"
    and "buffer_pos w = int (length pre)"
    and "buffer_len w = int (length pre + length (concat (map encode recs)))"
    and "length pre + length (concat (map encode recs)) < 2 ^ 31"
    and "\<forall>r \<in> set recs. well_formed r"
    and "length envs = length recs"
  shows "polls envs h s =
           Returns (map2 handed envs recs,
             s\<lparr>heap := (heap s)(h \<mapsto> w\<lparr>buffer_pos := buffer_len w\<rparr>),
               trace := trace s @ locked_steps h (length recs)\<rparr>)"
  using assms
proof (induction recs arbitrary: envs s w pre)
  case Nil
  then have w: "w\<lparr>buffer_pos := buffer_len w\<rparr> = w" by simp
  from Nil have hp: "(heap s)(h \<mapsto> w) = heap s" by (simp add: fun_upd_idem)
  have eq: "s\<lparr>heap := (heap s)(h \<mapsto> w\<lparr>buffer_pos := buffer_len w\<rparr>),
              trace := trace s @ locked_steps h (length ([]::kernel_record list))\<rparr> = s"
    unfolding w hp by (simp add: locked_steps_def)
  from Nil have envs: "envs = []" by simp
  show ?case unfolding envs eq by simp
next
  case (Cons r rs)
  then obtain e es where envs: "envs = e # es" by (cases envs) auto
  let ?w1 = "w\<lparr>buffer_pos := int (length pre + length (encode r))\<rparr>"
  let ?s1 = "s\<lparr>heap := (heap s)(h \<mapsto> ?w1),
               trace := trace s @ [Mutex_lock h, Mutex_unlock h]\<rparr>"
  have step: "nextEvent e h s = Returns (handed e r, ?s1)"
  proof (rule nextEvent_handed)
    show "h \<noteq> 0" "heap s h = Some w" by fact+
    show "event_buffer w = pre @ encode r @ (concat (map encode rs) @ post)"
      using Cons.prems(3) by simp
    show "buffer_pos w = int (length pre)" by fact
    show "buffer_pos w < buffer_len w"
      using Cons.prems(4,5) by (simp add: length_encode EVENT_SIZE_def)
    show "well_formed r" using Cons.prems(7) by simp
    show "length pre + length (encode r) < 2 ^ 31" using Cons.prems(6) by simp
  qed
  have rest: "polls es h ?s1 =
           Returns (map2 handed es rs,
             ?s1\<lparr>heap := (heap ?s1)(h \<mapsto> ?w1\<lparr>buffer_pos := buffer_len ?w1\<rparr>),
               trace := trace ?s1 @ locked_steps h (length rs)\<rparr>)"
  proof (rule Cons.IH [where pre = "pre @ encode r"])
    show "h \<noteq> 0" by fact
    show "heap ?s1 h = Some ?w1" by simp
    show "event_buffer ?w1 = (pre @ encode r) @ concat (map encode rs) @ post"
      using Cons.prems(3) by simp
    show "buffer_pos ?w1 = int (length (pre @ encode r))" by simp
    show "buffer_len ?w1 = int (length (pre @ encode r) + length (concat (map encode rs)))"
      using Cons.prems(5) by simp
    show "length (pre @ encode r) + length (concat (map encode rs)) < 2 ^ 31"
      using Cons.prems(6) by simp
    show "\<forall>r \<in> set rs. well_formed r" using Cons.prems(7) by simp
    show "length es = length rs" using Cons.prems(8) envs by simp
  qed
  have fin: "?s1\<lparr>heap := (heap ?s1)(h \<mapsto> ?w1\<lparr>buffer_pos := buffer_len ?w1\<rparr>),
               trace := trace ?s1 @ locked_steps h (length rs)\<rparr>
             = s\<lparr>heap := (heap s)(h \<mapsto> w\<lparr>buffer_pos := buffer_len w\<rparr>),
               trace := trace s @ locked_steps h (length (r # rs))\<rparr>"
    by (simp add: locked_steps_def)
  have m: "map2 handed (e # es) (r # rs) = handed e r # map2 handed es rs" by simp
  show ?case
    unfolding envs m by (simp only: polls.simps step rest fin outcome.case prod.case)
qed

lemma nextEvent_read_handed:
  assumes h: "h \<noteq> 0" "heap s h = Some w"
    and drained: "buffer_len w \<le> buffer_pos w"
    and fd: "0 \<le> inotify_fd w" "inotify_fd w \<in> set (open_fds s)"
    and chunk: "pending s (inotify_fd w) = (encode r @ tl_bytes) # rest"
    and fits: "length (encode r @ tl_bytes) \<le> BUF_LEN"
    and wf: "well_formed r"
  shows "nextEvent env h s =
           Returns (handed env r,
             s\<lparr>heap := (heap s)(h \<mapsto>
                    w\<lparr>event_buffer := (encode r @ tl_bytes)
                          @ drop (length (encode r @ tl_bytes)) (event_buffer w),
                      buffer_len := int (length (encode r @ tl_bytes)),
                      buffer_pos := int (length (encode r))\<rparr>),
               pending := (pending s)(inotify_fd w := rest),
               trace := trace s @ [Mutex_lock h, Sys_read (inotify_fd w), Mutex_unlock h]\<rparr>)"
proof -
  define chunk where "chunk = encode r @ tl_bytes"
  define w' where "w' = w\<lparr>event_buffer := chunk @ drop (length chunk) (event_buffer w),
               buffer_len := int (length chunk), buffer_pos := 0\<rparr>"
  define s' where "s' = (emit (Sys_read (inotify_fd w)) (emit (Mutex_lock h) s))
               \<lparr>pending := (pending s)(inotify_fd w := rest)\<rparr>"
  have rf: "refill w (emit (Mutex_lock h) s) = (w', s')"
    using fd chunk fits
    by (simp add: refill_def sys_read_def emit_def Let_def w'_def s'_def chunk_def)
  have bound: "length ([]::byte list) + length (encode r) < 2 ^ 31"
    using fits by (simp add: BUF_LEN_value)
  have pn: "parse_next env h w' s' =
              Returns (handed env r,
                w'\<lparr>buffer_pos := int (length ([]::byte list) + length (encode r))\<rparr>,
                emit (Mutex_unlock h) s')"
    by (rule parse_next_handed [where post = "tl_bytes @ drop (length chunk) (event_buffer w)",
          OF _ _ wf bound]) (simp_all add: w'_def chunk_def)
  have len: "\<not> buffer_len w' \<le> 0"
    by (simp add: w'_def chunk_def length_encode EVENT_SIZE_def)
  have body: "nextEvent_body env h w s = parse_next env h w' s'"
    using drained len by (simp add: nextEvent_body_def rf)
  have fin: "(emit (Mutex_unlock h) s')
               \<lparr>heap := (heap (emit (Mutex_unlock h) s'))
                    (h \<mapsto> w'\<lparr>buffer_pos := int (length ([]::byte list) + length (encode r))\<rparr>)\<rparr>
           = s\<lparr>heap := (heap s)(h \<mapsto>
                    w\<lparr>event_buffer := (encode r @ tl_bytes)
                          @ drop (length (encode r @ tl_bytes)) (event_buffer w),
                      buffer_len := int (length (encode r @ tl_bytes)),
                      buffer_pos := int (length (encode r))\<rparr>),
               pending := (pending s)(inotify_fd w := rest),
               trace := trace s @ [Mutex_lock h, Sys_read (inotify_fd w), Mutex_unlock h]\<rparr>"
    by (simp add: s'_def w'_def chunk_def emit_def)
  have "nextEvent env h s = Returns (handed env r,
          (emit (Mutex_unlock h) s')
               \<lparr>heap := (heap (emit (Mutex_unlock h) s'))
                    (h \<mapsto> w'\<lparr>buffer_pos := int (length ([]::byte list) + length (encode r))\<rparr>)\<rparr>)"
    using h by (simp add: nextEvent_def body pn)
  then show ?thesis unfolding fin .
qed

lemma polls_after_read:
  assumes h: "h \<noteq> 0" "heap s h = Some w"
    and drained: "buffer_len w \<le> buffer_pos w"
    and fd: "0 \<le> inotify_fd w" "inotify_fd w \<in> set (open_fds s)"
    and chunk: "pending s (inotify_fd w) = concat (map encode recs) # rest"
    and fits: "length (concat (map encode recs)) \<le> BUF_LEN"
    and wf: "\<forall>r \<in> set recs. well_formed r"
    and len: "length envs = length recs"
    and ne: "recs \<noteq> []"
  shows "polls envs h s =
           Returns (map2 handed envs recs,
             read_and_decoded h w (concat (map encode recs)) rest (length recs) s)"
proof -
  from ne obtain r rs where recs: "recs = r # rs" by (cases recs) auto
  with len obtain e es where envs: "envs = e # es" by (cases envs) auto
  define chunk where "chunk = concat (map encode recs)"
  have ch: "chunk = encode r @ concat (map encode rs)" by (simp add: chunk_def recs)
  define w1 where "w1 = w\<lparr>event_buffer := chunk @ drop (length chunk) (event_buffer w),
                      buffer_len := int (length chunk),
                      buffer_pos := int (length (encode r))\<rparr>"
  define s1 where "s1 = s\<lparr>heap := (heap s)(h \<mapsto> w1),
               pending := (pending s)(inotify_fd w := rest),
               trace := trace s @ [Mutex_lock h, Sys_read (inotify_fd w), Mutex_unlock h]\<rparr>"
  have step: "nextEvent e h s = Returns (handed e r, s1)"
    unfolding s1_def w1_def ch
    by (rule nextEvent_read_handed [OF h drained fd])
       (use chunk fits wf recs in simp_all)
  have rest: "polls es h s1 =
           Returns (map2 handed es rs,
             s1\<lparr>heap := (heap s1)(h \<mapsto> w1\<lparr>buffer_pos := buffer_len w1\<rparr>),
               trace := trace s1 @ locked_steps h (length rs)\<rparr>)"
  proof (rule polls_handed [where pre = "encode r"
        and post = "drop (length chunk) (event_buffer w)"])
    show "h \<noteq> 0" by fact
    show "heap s1 h = Some w1" by (simp add: s1_def)
    show "event_buffer w1 = encode r @ concat (map encode rs) @ drop (length chunk) (event_buffer w)"
      by (simp add: w1_def ch)
    show "buffer_pos w1 = int (length (encode r))" by (simp add: w1_def)
    show "buffer_len w1 = int (length (encode r) + length (concat (map encode rs)))"
      by (simp add: w1_def ch)
    show "length (encode r) + length (concat (map encode rs)) < 2 ^ 31"
      using fits by (simp add: recs BUF_LEN_value)
    show "\<forall>r \<in> set rs. well_formed r" using wf recs by simp
    show "length es = length rs" using len recs envs by simp
  qed
  have fin: "s1\<lparr>heap := (heap s1)(h \<mapsto> w1\<lparr>buffer_pos := buffer_len w1\<rparr>),
               trace := trace s1 @ locked_steps h (length rs)\<rparr>
           = read_and_decoded h w chunk rest (length recs) s"
    by (simp add: s1_def w1_def read_and_decoded_def recs)
  have m: "map2 handed (e # es) (r # rs) = handed e r # map2 handed es rs" by simp
  show ?thesis
    unfolding envs recs m
    using step rest fin
    by (simp add: chunk_def recs)
qed

lemma polls_append:
  assumes "polls xs h s = Returns (rs, s')"
  shows "polls (xs @ ys) h s =
           (case polls ys h s' of
              Undefined \<Rightarrow> Undefined
            | Returns (rs', s'') \<Rightarrow> Returns (rs @ rs', s''))"
  using assms
proof (induction xs arbitrary: s rs)
  case Nil
  then show ?case by (auto split: outcome.splits)
next
  case (Cons x xs)
  then show ?case
    by (auto split: outcome.splits prod.splits)
qed

lemma nextEvent_nothing_pending:
  assumes "h \<noteq> 0" and "heap s h = Some w"
    and "buffer_len w \<le> buffer_pos w"
    and "pending s (inotify_fd w) = []"
  shows "result (nextEvent env h s) = Returns NULL"
  using assms
  by (simp add: nextEvent_def nextEvent_body_def refill_def sys_read_def emit_def Let_def
      result_def)

lemma map2_handed_ok:
  assumes "\<forall>e \<in> set envs. NewStringUTF_ok e \<and> NewObject_ok e"
    and "length envs = length recs"
  shows "map2 handed envs recs = map delivered recs"
  using assms
proof (induction envs arbitrary: recs)
  case Nil
  then show ?case by simp
next
  case (Cons e es)
  then obtain r rs where "recs = r # rs" by (cases recs) auto
  with Cons show ?case by (simp add: handed_def)
qed

lemma result_Returns:
  "result out = Returns r \<Longrightarrow> \<exists>s'. out = Returns (r, s')"
  by (cases out) (auto simp: result_def)

lemma result_polls:
  "polls envs h s = Returns (rs, s') \<Longrightarrow> result (polls envs h s) = Returns rs"
  by (simp add: result_def)

lemma nextEvent_empty_read:
  assumes "h \<noteq> 0" and "heap s h = Some w"
    and "buffer_len w \<le> buffer_pos w"
    and "pending s (inotify_fd w) = [] # rest"
  shows "result (nextEvent env h s) = Returns NULL"
  using assms
  by (simp add: nextEvent_def nextEvent_body_def refill_def sys_read_def emit_def Let_def
      result_def)

lemma polls_after_read_then_null:
  assumes h: "h \<noteq> 0" "heap s h = Some w"
    and drained: "buffer_len w \<le> buffer_pos w"
    and fd: "0 \<le> inotify_fd w" "inotify_fd w \<in> set (open_fds s)"
    and chunk: "pending s (inotify_fd w) = [concat (map encode recs)]"
    and fits: "length (concat (map encode recs)) \<le> BUF_LEN"
    and wf: "\<forall>r \<in> set recs. well_formed r"
    and len: "length envs = length recs"
  shows "result (polls (envs @ [e']) h s) = Returns (map2 handed envs recs @ [NULL])"
proof (cases "recs = []")
  case True
  with len have envs: "envs = []" by simp
  from nextEvent_empty_read [OF h drained, of "[]" e'] chunk True
  obtain s' where "nextEvent e' h s = Returns (NULL, s')"
    by (auto dest: result_Returns)
  then show ?thesis by (simp add: envs True result_def)
next
  case False
  let ?S = "read_and_decoded h w (concat (map encode recs)) [] (length recs) s"
  have N: "polls envs h s = Returns (map2 handed envs recs, ?S)"
    by (rule polls_after_read [OF h drained fd chunk fits wf len False])
  have "result (nextEvent e' h ?S) = Returns NULL"
    by (rule nextEvent_nothing_pending
          [where w = "w\<lparr>event_buffer := concat (map encode recs)
                          @ drop (length (concat (map encode recs))) (event_buffer w),
                        buffer_len := int (length (concat (map encode recs))),
                        buffer_pos := int (length (concat (map encode recs)))\<rparr>"])
       (use h in \<open>simp_all add: read_and_decoded_def\<close>)
  then obtain s' where "nextEvent e' h ?S = Returns (NULL, s')"
    by (auto dest: result_Returns)
  then have "polls [e'] h ?S = Returns ([NULL], s')" by simp
  with polls_append [OF N, of "[e']"] show ?thesis by (simp add: result_def)
qed

lemma result_pair: "result (Returns (r, s)) = Returns r"
  by (simp add: result_def)

lemma wf_foo_ignored: "\<forall>r \<in> set [rec_foo, rec_ignored]. well_formed r"
  by (simp add: well_formed_def rec_foo_def rec_ignored_def NUL_def)

lemma fits_foo_ignored: "length (concat (map encode [rec_foo, rec_ignored])) \<le> BUF_LEN"
  by (simp add: length_encode_foo length_encode_ignored BUF_LEN_value)

lemma fresh_world:
  "heap (world_of (watcher_at 3 data 0 0) regs chunks) 4096 = Some (watcher_at 3 data 0 0)"
  "buffer_len (watcher_at 3 data 0 0) \<le> buffer_pos (watcher_at 3 data 0 0)"
  "0 \<le> inotify_fd (watcher_at 3 data 0 0)"
  "inotify_fd (watcher_at 3 data 0 0) \<in> set (open_fds (world_of (watcher_at 3 data 0 0) regs chunks))"
  "pending (world_of (watcher_at 3 data 0 0) regs chunks) (inotify_fd (watcher_at 3 data 0 0)) = chunks"
  by (simp_all add: world_of_def watcher_at_def)

section \<open>Decoding a buffer of whole records\<close>

text \<open>
  Claim C4, amended.  A watcher has nothing buffered and the kernel's next read hands
  over a buffer of \<open>N\<close> well-formed records, one after the other.  When the Java
  allocations of each call succeed, \<open>N\<close> successive \<open>nextEvent\<close> calls return exactly the
  \<open>N\<close> events of the records, in the order of the buffer.  The first call does the one
  read, the others only lock and unlock; afterwards the cursor stands at the reported
  length, and when the kernel has nothing more pending the next call returns null:
  no record is skipped, repeated or made up.
\<close>

theorem read_buffer_yields_records_in_order:
  assumes "h \<noteq> 0" and "heap s h = Some w"
    and "buffer_len w \<le> buffer_pos w"
    and "0 \<le> inotify_fd w" and "inotify_fd w \<in> set (open_fds s)"
    and "pending s (inotify_fd w) = concat (map encode recs) # rest"
    and "length (concat (map encode recs)) \<le> BUF_LEN"
    and "\<forall>r \<in> set recs. well_formed r"
    and "length envs = length recs"
    and "\<forall>e \<in> set envs. NewStringUTF_ok e \<and> NewObject_ok e"
  shows "result (polls envs h s) = Returns (map delivered recs)
       \<and> (recs \<noteq> [] \<longrightarrow>
            polls envs h s =
              Returns (map delivered recs,
                read_and_decoded h w (concat (map encode recs)) rest (length recs) s))
       \<and> (rest = [] \<longrightarrow>
            result (polls (envs @ [e']) h s) = Returns (map delivered recs @ [NULL]))"
proof -
  have m: "map2 handed envs recs = map delivered recs"
    by (rule map2_handed_ok [OF assms(10,9)])
  have b: "polls envs h s =
              Returns (map delivered recs,
                read_and_decoded h w (concat (map encode recs)) rest (length recs) s)"
    if "recs \<noteq> []"
    using polls_after_read [OF assms(1-9) that] by (simp only: m)
  have a: "result (polls envs h s) = Returns (map delivered recs)"
  proof (cases "recs = []")
    case True
    with assms(9) show ?thesis by (simp add: result_def)
  next
    case False
    from b [OF False] show ?thesis by (rule result_polls)
  qed
  have c: "result (polls (envs @ [e']) h s) = Returns (map delivered recs @ [NULL])"
    if "rest = []"
    using polls_after_read_then_null [OF assms(1-5) _ assms(7-9), of e'] assms(6) that
    by (simp only: m)
  from a b c show ?thesis by blast
qed

theorem read_buffer_yields_records_in_order_witness:
  "result (polls [jni_ok, jni_ok] 4096
     (world_of (watcher_at 3 [] 0 0) [] [encode rec_foo @ encode rec_ignored]))
   = Returns [Event CREATED ''/foo.txt'', Event MODIFIED []]
   \<and> polls [jni_ok, jni_ok] 4096
       (world_of (watcher_at 3 [] 0 0) [] [encode rec_foo @ encode rec_ignored])
     = Returns ([Event CREATED ''/foo.txt'', Event MODIFIED []],
         read_and_decoded 4096 (watcher_at 3 [] 0 0) (encode rec_foo @ encode rec_ignored) [] 2
           (world_of (watcher_at 3 [] 0 0) [] [encode rec_foo @ encode rec_ignored]))
   \<and> result (polls [jni_ok, jni_ok, jni_ok] 4096
     (world_of (watcher_at 3 [] 0 0) [] [encode rec_foo @ encode rec_ignored]))
   = Returns [Event CREATED ''/foo.txt'', Event MODIFIED [], NULL]"
proof -
  let ?s = "world_of (watcher_at 3 [] 0 0) [] [encode rec_foo @ encode rec_ignored]"
  have one: "(4096::nat) \<noteq> 0" by simp
  have p: "pending ?s (inotify_fd (watcher_at 3 [] 0 0))
             = concat (map encode [rec_foo, rec_ignored]) # []"
    by (simp add: fresh_world)
  have l: "length [jni_ok, jni_ok] = length [rec_foo, rec_ignored]" by simp
  have ok: "\<forall>e \<in> set [jni_ok, jni_ok]. NewStringUTF_ok e \<and> NewObject_ok e"
    by (simp add: jni_ok_def)
  from read_buffer_yields_records_in_order
         [OF one fresh_world(1-4) p fits_foo_ignored wf_foo_ignored l ok, of jni_ok]
  show ?thesis
    by (simp add: delivered_foo delivered_ignored numeral_2_eq_2 result_pair del: polls.simps)
qed

text \<open>
  Against claim C4 as stated: a read hands over a buffer of two well-formed records.
  In the first call \<open>NewStringUTF\<close> fails: the call returns null, but the cursor has
  moved past the first record.  The second call returns the second record and the
  third finds nothing more: two records, one event, the first record is lost.
\<close>

theorem lost_record_counterexample:
  "result (polls [jni_no_memory, jni_ok, jni_ok] 4096
     (world_of (watcher_at 3 [] 0 0) [] [encode rec_foo @ encode rec_ignored]))
   = Returns [NULL, Event MODIFIED [], NULL]"
proof -
  let ?s = "world_of (watcher_at 3 [] 0 0) [] [encode rec_foo @ encode rec_ignored]"
  have one: "(4096::nat) \<noteq> 0" by simp
  have p: "pending ?s (inotify_fd (watcher_at 3 [] 0 0))
             = [concat (map encode [rec_foo, rec_ignored])]"
    by (simp add: fresh_world)
  have l: "length [jni_no_memory, jni_ok] = length [rec_foo, rec_ignored]" by simp
  from polls_after_read_then_null
         [OF one fresh_world(1-4) p fits_foo_ignored wf_foo_ignored l, of jni_ok]
  show ?thesis
    by (simp add: handed_def jni_no_memory_def jni_ok_def delivered_ignored del: polls.simps)
qed

section \<open>Buffers that end inside a record\<close>

text \<open>
  Claim C5, amended.  For a buffer of whole well-formed records that a read hands to a
  watcher with nothing buffered, the successive \<open>nextEvent\<close> calls are all defined and
  return, record by record, the event of the record (null in a call whose Java
  allocation fails); they return the same whatever the event buffer held before the
  read, which is what it holds past the reported length afterwards.  And the reported
  length is looked at only to decide whether to read: while the cursor is below it,
  \<open>nextEvent\<close> returns the same for every reported length above the cursor, so a
  record that the reported length cuts short is decoded like a whole one.
\<close>

theorem whole_records_read_within_length:
  assumes "h \<noteq> 0" and "heap s h = Some w"
    and "buffer_len w \<le> buffer_pos w"
    and "0 \<le> inotify_fd w" and "inotify_fd w \<in> set (open_fds s)"
    and "pending s (inotify_fd w) = concat (map encode recs) # rest"
    and "length (concat (map encode recs)) \<le> BUF_LEN"
    and "\<forall>r \<in> set recs. well_formed r"
    and "length envs = length recs"
  shows "result (polls envs h s) = Returns (map2 handed envs recs)
       \<and> result (polls envs h (s\<lparr>heap := (heap s)(h \<mapsto> w\<lparr>event_buffer := mem'\<rparr>)\<rparr>))
           = result (polls envs h s)
       \<and> (h2 \<noteq> 0 \<and> heap s2 h2 = Some w2 \<and> buffer_pos w2 < buffer_len w2 \<and> buffer_pos w2 < n
            \<longrightarrow> result (nextEvent env h2 (s2\<lparr>heap := (heap s2)(h2 \<mapsto> w2\<lparr>buffer_len := n\<rparr>)\<rparr>))
                 = result (nextEvent env h2 s2))"
proof -
  let ?w' = "w\<lparr>event_buffer := mem'\<rparr>"
  let ?s' = "s\<lparr>heap := (heap s)(h \<mapsto> ?w')\<rparr>"
  have a: "result (polls envs h s) = Returns (map2 handed envs recs)"
  proof (cases "recs = []")
    case True
    with assms(9) show ?thesis by (simp add: result_def)
  next
    case False
    from polls_after_read [OF assms False] show ?thesis by (rule result_polls)
  qed
  have a': "result (polls envs h ?s') = Returns (map2 handed envs recs)"
  proof (cases "recs = []")
    case True
    with assms(9) show ?thesis by (simp add: result_def)
  next
    case False
    have "polls envs h ?s' =
           Returns (map2 handed envs recs,
             read_and_decoded h ?w' (concat (map encode recs)) rest (length recs) ?s')"
      by (rule polls_after_read [OF assms(1) _ _ _ _ _ assms(7-9) False])
         (use assms in simp_all)
    then show ?thesis by (rule result_polls)
  qed
  have b: "result (nextEvent env h2 (s2\<lparr>heap := (heap s2)(h2 \<mapsto> w2\<lparr>buffer_len := n\<rparr>)\<rparr>))
                 = result (nextEvent env h2 s2)"
    if "h2 \<noteq> 0" "heap s2 h2 = Some w2" "buffer_pos w2 < buffer_len w2" "buffer_pos w2 < n"
    using that
    by (simp add: nextEvent_def nextEvent_body_def parse_next_def result_def
        split: option.splits outcome.splits)
  from a a' b show ?thesis by simp
qed

theorem whole_records_read_within_length_witness:
  "result (polls [jni_ok, jni_ok] 4096
     (world_of (watcher_at 3 [] 0 0) [] [encode rec_foo @ encode rec_ignored]))
   = Returns [Event CREATED ''/foo.txt'', Event MODIFIED []]
   \<and> result (polls [jni_ok, jni_ok] 4096
     ((world_of (watcher_at 3 [] 0 0) [] [encode rec_foo @ encode rec_ignored])
        \<lparr>heap := (heap (world_of (watcher_at 3 [] 0 0) [] [encode rec_foo @ encode rec_ignored]))
                   (4096 \<mapsto> (watcher_at 3 [] 0 0)
                      \<lparr>event_buffer := replicate BUF_LEN (CHR ''x'')\<rparr>)\<rparr>))
   = Returns [Event CREATED ''/foo.txt'', Event MODIFIED []]
   \<and> result (nextEvent jni_ok 4096
     ((world_of (watcher_at 3 (encode rec_foo) 0 8) [] [])
        \<lparr>heap := (heap (world_of (watcher_at 3 (encode rec_foo) 0 8) [] []))
                   (4096 \<mapsto> (watcher_at 3 (encode rec_foo) 0 8)\<lparr>buffer_len := 32\<rparr>)\<rparr>))
   = result (nextEvent jni_ok 4096 (world_of (watcher_at 3 (encode rec_foo) 0 8) [] []))"
proof -
  let ?s = "world_of (watcher_at 3 [] 0 0) [] [encode rec_foo @ encode rec_ignored]"
  let ?w2 = "watcher_at 3 (encode rec_foo) 0 8"
  have one: "(4096::nat) \<noteq> 0" by simp
  have p: "pending ?s (inotify_fd (watcher_at 3 [] 0 0))
             = concat (map encode [rec_foo, rec_ignored]) # []"
    by (simp add: fresh_world)
  have l: "length [jni_ok, jni_ok] = length [rec_foo, rec_ignored]" by simp
  have m: "map2 handed [jni_ok, jni_ok] [rec_foo, rec_ignored]
             = [Event CREATED ''/foo.txt'', Event MODIFIED []]"
    by (simp add: handed_def jni_ok_def delivered_foo delivered_ignored)
  have b: "(4096::nat) \<noteq> 0 \<and> heap (world_of ?w2 [] []) 4096 = Some ?w2
            \<and> buffer_pos ?w2 < buffer_len ?w2 \<and> buffer_pos ?w2 < 32"
    by (simp add: heap_world_of) (simp add: watcher_at_def)
  from whole_records_read_within_length
         [OF one fresh_world(1-4) p fits_foo_ignored wf_foo_ignored l,
          of "replicate BUF_LEN (CHR ''x'')" 4096 "world_of ?w2 [] []" ?w2 32 jni_ok]
  show ?thesis unfolding m using b by (simp del: polls.simps)
qed

lemma nextEvent_partial:
  assumes "well_formed r" and "length (encode r) \<le> BUF_LEN"
    and "0 < n"
  shows "result (nextEvent jni_ok 4096 (world_of (watcher_at 3 (encode r) 0 n) [] []))
           = Returns (delivered r)"
proof -
  let ?w = "watcher_at 3 (encode r) 0 n"
  let ?s = "world_of ?w [] []"
  have "nextEvent jni_ok 4096 ?s =
           Returns (delivered r,
             ?s\<lparr>heap := (heap ?s)(4096 \<mapsto> ?w\<lparr>buffer_pos :=
                     int (length ([]::byte list) + length (encode r))\<rparr>),
               trace := trace ?s @ [Mutex_lock 4096, Mutex_unlock 4096]\<rparr>)"
  proof (rule nextEvent_encode [where post = "replicate (BUF_LEN - length (encode r)) NUL"])
    show "(4096::nat) \<noteq> 0" by simp
    show "heap ?s 4096 = Some ?w" by (rule heap_world_of)
    show "event_buffer ?w = [] @ encode r @ replicate (BUF_LEN - length (encode r)) NUL"
      by (simp add: watcher_at_def memory_of_def)
    show "buffer_pos ?w = int (length ([]::byte list))" by (simp add: watcher_at_def)
    show "buffer_pos ?w < buffer_len ?w" using assms(3) by (simp add: watcher_at_def)
    show "well_formed r" by fact
    show "length ([]::byte list) + length (encode r) < 2 ^ 31"
      using assms(2) by (simp add: BUF_LEN_value)
    show "NewStringUTF_ok jni_ok" "NewObject_ok jni_ok" by (simp_all add: jni_ok_def)
  qed
  then show ?thesis by (simp add: result_def)
qed

lemma delivered_bar: "delivered rec_bar = Event CREATED ''/bar.txt''"
  by (simp add: delivered_def rec_bar_def name_field_def event_kind_def
      IN_CREATE_def IN_MOVED_TO_def)

text \<open>
  Against claim C5 as stated: two event buffers hold the same first 8 bytes and the
  reported length is 8, inside the 16-byte header.  \<open>nextEvent\<close> reports no error: it
  returns an event, and the two events differ, so they were read from the bytes past
  the reported length.  And with only 8 bytes left between the cursor and a reported
  length of \<open>BUF_LEN\<close>, the header is read across the end of \<open>event_buffer\<close>.
\<close>

theorem partial_record_counterexample:
  "take 8 (memory_of (encode rec_foo)) = take 8 (memory_of (encode rec_bar))
   \<and> result (nextEvent jni_ok 4096 (world_of (watcher_at 3 (encode rec_foo) 0 8) [] []))
       = Returns (Event CREATED ''/foo.txt'')
   \<and> result (nextEvent jni_ok 4096 (world_of (watcher_at 3 (encode rec_bar) 0 8) [] []))
       = Returns (Event CREATED ''/bar.txt'')
   \<and> nextEvent jni_ok 4096 (world_of (watcher_at 3 [] 32760 32768) [] []) = Undefined"
proof -
  have "take 8 (memory_of (encode rec_foo)) = take 8 (memory_of (encode rec_bar))"
    by (simp add: memory_of_def encode_def rec_foo_def rec_bar_def)
  moreover have "result (nextEvent jni_ok 4096 (world_of (watcher_at 3 (encode rec_foo) 0 8) [] []))
       = Returns (delivered rec_foo)"
    by (rule nextEvent_partial)
       (simp_all add: well_formed_def rec_foo_def NUL_def length_encode name_field_def
          EVENT_SIZE_def BUF_LEN_value)
  moreover have "result (nextEvent jni_ok 4096 (world_of (watcher_at 3 (encode rec_bar) 0 8) [] []))
       = Returns (delivered rec_bar)"
    by (rule nextEvent_partial)
       (simp_all add: well_formed_def rec_bar_def NUL_def length_encode name_field_def
          EVENT_SIZE_def BUF_LEN_value)
  moreover have "nextEvent jni_ok 4096 (world_of (watcher_at 3 [] 32760 32768) [] []) = Undefined"
  proof -
    have "event_at (memory_of []) 32760 = None"
      by (simp add: event_at_def memory_of_def BUF_LEN_value EVENT_SIZE_def)
    then show ?thesis
      by (simp add: nextEvent_def nextEvent_body_def parse_next_def heap_world_of watcher_at_def)
  qed
  ultimately show ?thesis by (simp only: delivered_foo delivered_bar)
qed

end
